theory Spec2Isabelle
  imports Main "HOL-Library.Word"
begin

unbundle bit_operations_syntax

section \<open>Register blocks\<close>

text \<open>
  The GPIO block of \<^verbatim>\<open>EasyREDVIO_ThingPlus.h\<close> and \<^verbatim>\<open>EasyREDVIO.h\<close>: seventeen
  32-bit registers, in the order of the C struct.
\<close>

record GPIO =
  input_val :: "32 word"
  input_en :: "32 word"
  output_en :: "32 word"
  output_val :: "32 word"
  pue :: "32 word"
  ds :: "32 word"
  rise_ie :: "32 word"
  rise_ip :: "32 word"
  fall_ie :: "32 word"
  fall_ip :: "32 word"
  high_ie :: "32 word"
  high_ip :: "32 word"
  low_ie :: "32 word"
  low_ip :: "32 word"
  iof_en :: "32 word"
  iof_sel :: "32 word"
  out_xor :: "32 word"

text \<open>
  The SPI block of \<^verbatim>\<open>REDV_SPI.h\<close>. Every named bit-field of a configuration register
  is a field of its declared width, named register_field; an assignment to a bit-field
  of width w keeps the low w bits of the value (\<open>ucast\<close>). The registers \<^verbatim>\<open>txdata\<close>,
  \<^verbatim>\<open>rxdata\<close> and \<^verbatim>\<open>ip\<close> are ports of the peripheral and are not storage: they are
  modelled by the bus events and the peripheral below.
\<close>

record SPI =
  sckdiv_div :: "12 word"
  sckmode_pha :: "1 word"
  sckmode_pol :: "1 word"
  csid_csid :: "32 word"
  csdef_csdef :: "32 word"
  csmode_mode :: "2 word"
  delay0_cssck :: "8 word"
  delay0_sckcs :: "8 word"
  delay1_intercs :: "8 word"
  delay1_interxfr :: "8 word"
  fmt_proto :: "2 word"
  fmt_endian :: "1 word"
  fmt_dir :: "1 word"
  fmt_len :: "4 word"
  txmark_txmark :: "3 word"
  rxmark_rxmark :: "3 word"
  fctrl_en :: "1 word"
  ffmt_cmd_en :: "1 word"
  ffmt_addr_len :: "3 word"
  ffmt_pad_cnt :: "4 word"
  ffmt_cmd_proto :: "2 word"
  ffmt_addr_proto :: "2 word"
  ffmt_data_proto :: "2 word"
  ffmt_cmd_code :: "8 word"
  ffmt_pad_code :: "8 word"
  ie_txwm :: "1 word"
  ie_rxwm :: "1 word"

text \<open>
  The accesses to the data path of SPI1, in program order: a read of \<^verbatim>\<open>ip.txwm\<close> or
  \<^verbatim>\<open>ip.rxwm\<close> with the value read, a write of \<^verbatim>\<open>txdata.data\<close> with the value written,
  a read of \<^verbatim>\<open>rxdata.data\<close> with the value read.
\<close>

datatype event =
  PollTxwm "1 word"
| WriteTxdata "8 word"
| PollRxwm "1 word"
| ReadRxdata "8 word"

record machine =
  gpio :: GPIO
  spi :: SPI
  bus :: "event list"

text \<open>
  The peripheral decides what a volatile read of a status or data port returns. It is
  a function of everything the program has done so far: the register contents and the
  accesses on the bus. Every poll is an access, so the number of polls stands for the
  time that has passed.
\<close>

record peripheral =
  ip_txwm :: "machine \<Rightarrow> 1 word"
  ip_rxwm :: "machine \<Rightarrow> 1 word"
  rxdata_data :: "machine \<Rightarrow> 8 word"

definition access :: "event \<Rightarrow> machine \<Rightarrow> machine" where
  "access e s = s\<lparr>bus := bus s @ [e]\<rparr>"

section \<open>Undefined behaviour\<close>

text \<open>
  The C \<^verbatim>\<open>int\<close> is modelled by \<open>int\<close>: the code does no arithmetic on it that leaves the
  32-bit range. What ISO C leaves undefined is a fault of the model.
\<close>

datatype fault = UndefinedShift | OutOfBounds

text \<open>
  \<^verbatim>\<open>1 << n\<close> on \<^verbatim>\<open>int\<close>, as a 32-bit pattern: defined when the count is not negative
  and the result fits into \<^verbatim>\<open>int\<close>, that is for 0 to 30.
\<close>

definition shl1 :: "int \<Rightarrow> fault + 32 word" where
  "shl1 n = (if 0 \<le> n \<and> n < 31 then Inr (push_bit (nat n) 1) else Inl UndefinedShift)"

text \<open>\<^verbatim>\<open>x >> n\<close> on \<^verbatim>\<open>uint32_t\<close>: defined for a count from 0 to 31.\<close>

definition shr :: "32 word \<Rightarrow> int \<Rightarrow> fault + 32 word" where
  "shr x n = (if 0 \<le> n \<and> n < 32 then Inr (drop_bit (nat n) x) else Inl UndefinedShift)"

text \<open>\<^verbatim>\<open>a % b\<close> on \<^verbatim>\<open>int\<close> truncates towards zero.\<close>

definition c_rem :: "int \<Rightarrow> int \<Rightarrow> int" where
  "c_rem a b = sgn a * (\<bar>a\<bar> mod \<bar>b\<bar>)"

section \<open>GPIO functions of EasyREDVIO_ThingPlus.h\<close>

abbreviation LOW :: int where "LOW \<equiv> 0"
abbreviation HIGH :: int where "HIGH \<equiv> 1"
abbreviation INPUT :: int where "INPUT \<equiv> 0"
abbreviation OUTPUT :: int where "OUTPUT \<equiv> 1"
abbreviation GPIO_IOF0 :: int where "GPIO_IOF0 \<equiv> 2"

text \<open>
  \<^verbatim>\<open>pinMode\<close>: a switch with no default, so any other function value changes nothing.
  Each statement evaluates its own shift.
\<close>

definition pinMode :: "int \<Rightarrow> int \<Rightarrow> GPIO \<Rightarrow> fault + GPIO" where
  "pinMode pin function g =
    (if function = INPUT then
       (case shl1 pin of Inl e \<Rightarrow> Inl e
        | Inr m \<Rightarrow> Inr (g\<lparr>input_en := input_en g OR m\<rparr>))
     else if function = OUTPUT then
       (case shl1 pin of Inl e \<Rightarrow> Inl e
        | Inr m \<Rightarrow>
            (let g1 = g\<lparr>output_en := output_en g OR m\<rparr>
             in case shl1 pin of Inl e \<Rightarrow> Inl e
                | Inr m' \<Rightarrow> Inr (g1\<lparr>iof_en := iof_en g1 AND NOT m'\<rparr>)))
     else if function = GPIO_IOF0 then
       (case shl1 pin of Inl e \<Rightarrow> Inl e
        | Inr m \<Rightarrow>
            (let g1 = g\<lparr>iof_sel := iof_sel g AND NOT m\<rparr>
             in case shl1 pin of Inl e \<Rightarrow> Inl e
                | Inr m' \<Rightarrow> Inr (g1\<lparr>iof_en := iof_en g1 OR m'\<rparr>)))
     else Inr g)"

definition digitalWrite :: "int \<Rightarrow> int \<Rightarrow> GPIO \<Rightarrow> fault + GPIO" where
  "digitalWrite pin val g =
    (case shl1 pin of Inl e \<Rightarrow> Inl e
     | Inr m \<Rightarrow>
         if val \<noteq> 0 then Inr (g\<lparr>output_val := output_val g OR m\<rparr>)
         else Inr (g\<lparr>output_val := output_val g AND NOT m\<rparr>))"

text \<open>\<^verbatim>\<open>digitalRead\<close> returns the value read and the register block after the call.\<close>

definition digitalRead :: "int \<Rightarrow> GPIO \<Rightarrow> fault + (int \<times> GPIO)" where
  "digitalRead pin g =
    (case shr (input_val g) pin of Inl e \<Rightarrow> Inl e
     | Inr v \<Rightarrow> Inr (uint (v AND 1), g))"

section \<open>Pin mapping and GPIO functions of EasyREDVIO.h\<close>

definition digitalPinMapping :: "int list" where
  "digitalPinMapping = [16, 17, 18, 19, 20, 21, 22, 23, 0, 1, 2, 3, 4, 5, -1, 9, 10, 11, 12, 13]"

text \<open>A read of a C array: outside the array it is undefined.\<close>

definition array_read :: "int list \<Rightarrow> int \<Rightarrow> fault + int" where
  "array_read xs i = (if 0 \<le> i \<and> i < int (length xs) then Inr (xs ! nat i) else Inl OutOfBounds)"

definition pinToGPIO :: "int \<Rightarrow> fault + int" where
  "pinToGPIO pin =
    (if pin \<noteq> 14 \<and> pin < 20 then array_read digitalPinMapping pin else Inr (- 1))"

text \<open>
  The three functions of \<^verbatim>\<open>EasyREDVIO.h\<close> compute \<^verbatim>\<open>gpio_pin = pinToGPIO(pin % 32)\<close> and
  then run the statements of their \<^verbatim>\<open>EasyREDVIO_ThingPlus.h\<close> namesakes with
  \<^verbatim>\<open>gpio_pin\<close> in the place of \<^verbatim>\<open>pin\<close>.
\<close>

definition EasyREDVIO_pinMode :: "int \<Rightarrow> int \<Rightarrow> GPIO \<Rightarrow> fault + GPIO" where
  "EasyREDVIO_pinMode pin function g =
    (let pin_offset = c_rem pin 32
     in case pinToGPIO pin_offset of Inl e \<Rightarrow> Inl e
        | Inr gpio_pin \<Rightarrow> pinMode gpio_pin function g)"

definition EasyREDVIO_digitalWrite :: "int \<Rightarrow> int \<Rightarrow> GPIO \<Rightarrow> fault + GPIO" where
  "EasyREDVIO_digitalWrite pin val g =
    (let pin_offset = c_rem pin 32
     in case pinToGPIO pin_offset of Inl e \<Rightarrow> Inl e
        | Inr gpio_pin \<Rightarrow> digitalWrite gpio_pin val g)"

definition EasyREDVIO_digitalRead :: "int \<Rightarrow> GPIO \<Rightarrow> fault + (int \<times> GPIO)" where
  "EasyREDVIO_digitalRead pin g =
    (let pin_offset = c_rem pin 32
     in case pinToGPIO pin_offset of Inl e \<Rightarrow> Inl e
        | Inr gpio_pin \<Rightarrow> digitalRead gpio_pin g)"

section \<open>The SPI driver of lab8starter.c\<close>

text \<open>
  \<^verbatim>\<open>spiInit\<close>: four \<^verbatim>\<open>pinMode\<close> calls, then the configuration writes in source order.
\<close>

definition spiInit :: "32 word \<Rightarrow> 32 word \<Rightarrow> 32 word \<Rightarrow> machine \<Rightarrow> fault + machine" where
  "spiInit clkdivide cpol cpha s =
    (case pinMode 2 GPIO_IOF0 (gpio s) of Inl e \<Rightarrow> Inl e | Inr g1 \<Rightarrow>
     case pinMode 3 GPIO_IOF0 g1 of Inl e \<Rightarrow> Inl e | Inr g2 \<Rightarrow>
     case pinMode 4 GPIO_IOF0 g2 of Inl e \<Rightarrow> Inl e | Inr g3 \<Rightarrow>
     case pinMode 5 GPIO_IOF0 g3 of Inl e \<Rightarrow> Inl e | Inr g4 \<Rightarrow>
       Inr (s\<lparr>gpio := g4,
              spi := (spi s)\<lparr>
                sckdiv_div := ucast clkdivide,
                sckmode_pol := ucast cpol,
                sckmode_pha := ucast cpha,
                csid_csid := 0,
                csmode_mode := 2,
                fmt_proto := 0,
                fmt_endian := 0,
                fmt_dir := 0,
                fmt_len := 8,
                fctrl_en := 0,
                delay1_interxfr := 0,
                delay0_cssck := 0,
                delay0_sckcs := 0,
                ie_rxwm := 1,
                ie_txwm := 1,
                rxmark_rxmark := 0,
                txmark_txmark := 1\<rparr>\<rparr>))"

text \<open>
  A busy-wait \<^verbatim>\<open>while(!flag);\<close>: every round reads the flag once. The loop has no bound,
  so it is a partial function: \<open>None\<close> is the loop that never ends.
\<close>

partial_function (option) spin ::
  "(machine \<Rightarrow> 1 word) \<Rightarrow> (1 word \<Rightarrow> event) \<Rightarrow> machine \<Rightarrow> machine option" where
  "spin flag ev s =
    (let v = flag s
     in if v = 0 then spin flag ev (access (ev v) s) else Some (access (ev v) s))"

definition spiSendReceive ::
  "peripheral \<Rightarrow> 8 word \<Rightarrow> machine \<Rightarrow> (8 word \<times> machine) option" where
  "spiSendReceive p send s =
    (case spin (ip_txwm p) PollTxwm s of None \<Rightarrow> None
     | Some s1 \<Rightarrow>
         (let s2 = access (WriteTxdata send) s1
          in case spin (ip_rxwm p) PollRxwm s2 of None \<Rightarrow> None
             | Some s3 \<Rightarrow>
                 (let v = rxdata_data p s3 in Some (v, access (ReadRxdata v) s3))))"

text \<open>
  \<^verbatim>\<open>spiSendReceive16\<close>: \<^verbatim>\<open>data\<close>, \<^verbatim>\<open>char1\<close> and \<^verbatim>\<open>char2\<close> are promoted to \<^verbatim>\<open>int\<close> (32 bits)
  in the expressions; the arguments are converted to \<^verbatim>\<open>uint8_t\<close> and \<^verbatim>\<open>rec\<close> to
  \<^verbatim>\<open>uint16_t\<close>.
\<close>

definition spiSendReceive16 ::
  "peripheral \<Rightarrow> 16 word \<Rightarrow> machine \<Rightarrow> (16 word \<times> machine) option" where
  "spiSendReceive16 p data s =
    (let s0 = s\<lparr>spi := (spi s)\<lparr>csmode_mode := 2\<rparr>\<rparr>
     in case spiSendReceive p (ucast (drop_bit 8 ((ucast data :: 32 word) AND 0xFF00))) s0 of
          None \<Rightarrow> None
        | Some (char1, s1) \<Rightarrow>
            (case spiSendReceive p (ucast ((ucast data :: 32 word) AND 0x00FF)) s1 of
               None \<Rightarrow> None
             | Some (char2, s2) \<Rightarrow>
                 (let rec = (ucast (push_bit 8 (ucast char1 :: 32 word) OR ucast char2) :: 16 word)
                  in Some (rec, s2\<lparr>spi := (spi s2)\<lparr>csmode_mode := 0\<rparr>\<rparr>))))"

definition spiWrite :: "peripheral \<Rightarrow> 8 word \<Rightarrow> 8 word \<Rightarrow> machine \<Rightarrow> machine option" where
  "spiWrite p address val s =
    (case spiSendReceive16 p (ucast (push_bit 8 (ucast address :: 32 word) OR ucast val)) s of
       None \<Rightarrow> None
     | Some (r, s') \<Rightarrow> Some s')"

definition spiRead :: "peripheral \<Rightarrow> 8 word \<Rightarrow> machine \<Rightarrow> (8 word \<times> machine) option" where
  "spiRead p address s =
    (case spiSendReceive16 p (ucast (push_bit 8 (ucast address :: 32 word) OR push_bit 15 1)) s of
       None \<Rightarrow> None
     | Some (r, s') \<Rightarrow> Some (ucast r, s'))"

section \<open>Observations\<close>

text \<open>The machine after \<open>n\<close> rounds of a busy-wait that all read the flag as 0.\<close>

definition polled :: "(1 word \<Rightarrow> event) \<Rightarrow> nat \<Rightarrow> machine \<Rightarrow> machine" where
  "polled ev n s = s\<lparr>bus := bus s @ replicate n (ev 0)\<rparr>"

text \<open>The bytes written to \<^verbatim>\<open>txdata\<close> and the bytes read from \<^verbatim>\<open>rxdata\<close>, in order.\<close>

fun tx_bytes :: "event list \<Rightarrow> 8 word list" where
  "tx_bytes [] = []"
| "tx_bytes (WriteTxdata b # es) = b # tx_bytes es"
| "tx_bytes (e # es) = tx_bytes es"

fun rx_bytes :: "event list \<Rightarrow> 8 word list" where
  "rx_bytes [] = []"
| "rx_bytes (ReadRxdata b # es) = b # rx_bytes es"
| "rx_bytes (e # es) = rx_bytes es"

text \<open>The registers of the GPIO block, in the order of the struct.\<close>

definition gpio_regs :: "GPIO \<Rightarrow> 32 word list" where
  "gpio_regs g =
    [input_val g, input_en g, output_en g, output_val g, pue g, ds g, rise_ie g, rise_ip g,
     fall_ie g, fall_ip g, high_ie g, high_ip g, low_ie g, low_ip g, iof_en g, iof_sel g,
     out_xor g]"

section \<open>Concrete machines and peripherals\<close>

definition gpio_zero :: GPIO where
  "gpio_zero =
    \<lparr>input_val = 0, input_en = 0, output_en = 0, output_val = 0, pue = 0, ds = 0,
     rise_ie = 0, rise_ip = 0, fall_ie = 0, fall_ip = 0, high_ie = 0, high_ip = 0,
     low_ie = 0, low_ip = 0, iof_en = 0, iof_sel = 0, out_xor = 0\<rparr>"

definition spi_zero :: SPI where
  "spi_zero =
    \<lparr>sckdiv_div = 0, sckmode_pha = 0, sckmode_pol = 0, csid_csid = 0, csdef_csdef = 0,
     csmode_mode = 0, delay0_cssck = 0, delay0_sckcs = 0, delay1_intercs = 0,
     delay1_interxfr = 0, fmt_proto = 0, fmt_endian = 0, fmt_dir = 0, fmt_len = 0,
     txmark_txmark = 0, rxmark_rxmark = 0, fctrl_en = 0, ffmt_cmd_en = 0, ffmt_addr_len = 0,
     ffmt_pad_cnt = 0, ffmt_cmd_proto = 0, ffmt_addr_proto = 0, ffmt_data_proto = 0,
     ffmt_cmd_code = 0, ffmt_pad_code = 0, ie_txwm = 0, ie_rxwm = 0\<rparr>"

definition machine_zero :: machine where
  "machine_zero = \<lparr>gpio = gpio_zero, spi = spi_zero, bus = []\<rparr>"

text \<open>
  A loopback peripheral (data-out wired to data-in) that is always ready: both pending
  flags read 1 and \<^verbatim>\<open>rxdata\<close> returns the byte written last.
\<close>

definition last_tx :: "event list \<Rightarrow> 8 word" where
  "last_tx es = (case rev (tx_bytes es) of [] \<Rightarrow> 0 | b # bs \<Rightarrow> b)"

definition loopback :: peripheral where
  "loopback =
    \<lparr>ip_txwm = (\<lambda>s. 1), ip_rxwm = (\<lambda>s. 1), rxdata_data = (\<lambda>s. last_tx (bus s))\<rparr>"

text \<open>A loopback whose flags read 0 once before they read 1.\<close>

definition slow_loopback :: peripheral where
  "slow_loopback =
    \<lparr>ip_txwm = (\<lambda>s. if bus s \<noteq> [] \<and> last (bus s) = PollTxwm 0 then 1 else 0),
     ip_rxwm = (\<lambda>s. if bus s \<noteq> [] \<and> last (bus s) = PollRxwm 0 then 1 else 0),
     rxdata_data = (\<lambda>s. last_tx (bus s))\<rparr>"

text \<open>A peripheral that never raises a flag, and one that accepts bytes and never answers.\<close>

definition silent :: peripheral where
  "silent = \<lparr>ip_txwm = (\<lambda>s. 0), ip_rxwm = (\<lambda>s. 0), rxdata_data = (\<lambda>s. 0)\<rparr>"

definition mute :: peripheral where
  "mute = \<lparr>ip_txwm = (\<lambda>s. 1), ip_rxwm = (\<lambda>s. 0), rxdata_data = (\<lambda>s. 0)\<rparr>"

section \<open>Auxiliary facts\<close>

subsection \<open>Bytes and words\<close>

lemma ff_mask: "(0xFF :: 'a::len word) = mask 8"
  by (simp add: mask_eq_exp_minus_1)

lemma ff00_mask: "(0xFF00 :: 'a::len word) = push_bit 8 (mask 8)"
  by (simp add: mask_eq_exp_minus_1 push_bit_eq_mult)

lemma hi_byte_promoted: "(ucast (drop_bit 8 ((ucast (x::16 word) :: 32 word) AND 0xFF00)) :: 8 word) = ucast (drop_bit 8 x AND 0xFF)"
  unfolding ff_mask ff00_mask
  by (rule bit_word_eqI) (auto simp add: bit_simps)

lemma lo_byte_promoted: "(ucast ((ucast (x::16 word) :: 32 word) AND 0x00FF) :: 8 word) = ucast (x AND 0xFF)"
  unfolding ff_mask
  by (rule bit_word_eqI) (auto simp add: bit_simps)

lemma bit_8000: "bit (0x8000 :: 'a::semiring_bit_operations) n \<longleftrightarrow> n = 15 \<and> possible_bit TYPE('a) n"
proof -
  have "bit (push_bit 15 1 :: 'a) n \<longleftrightarrow> n = 15 \<and> possible_bit TYPE('a) n"
    by (simp only: bit_push_bit_iff bit_1_iff) auto
  then show ?thesis by (simp add: push_bit_eq_mult)
qed

lemma bit_80: "bit (0x80 :: 'a::semiring_bit_operations) n \<longleftrightarrow> n = 7 \<and> possible_bit TYPE('a) n"
proof -
  have "bit (push_bit 7 1 :: 'a) n \<longleftrightarrow> n = 7 \<and> possible_bit TYPE('a) n"
    by (simp only: bit_push_bit_iff bit_1_iff) auto
  then show ?thesis by (simp add: push_bit_eq_mult)
qed

lemma compose_promoted: "(ucast (push_bit 8 (ucast (c1::8 word) :: 32 word) OR ucast (c2 :: 8 word)) :: 16 word) = push_bit 8 (ucast c1) OR ucast c2"
  by (rule bit_word_eqI) (auto simp add: bit_simps)

lemma read_word_promoted: "(ucast (push_bit 8 (ucast (a :: 8 word) :: 32 word) OR push_bit 15 1) :: 16 word) = push_bit 8 (ucast a) OR 0x8000"
  by (rule bit_word_eqI) (auto simp add: bit_simps bit_8000)

lemma write_word_top_bit: "bit (push_bit 8 (ucast (a :: 8 word)) OR ucast (v :: 8 word) :: 16 word) 15 = bit a 7"
  by (auto simp add: bit_simps dest: bit_imp_le_length)

lemma read_word_top_bit: "bit (push_bit 8 (ucast (a :: 8 word)) OR 0x8000 :: 16 word) 15"
  by (auto simp add: bit_simps bit_8000)

lemma write_word_hi: "(ucast (drop_bit 8 (push_bit 8 (ucast (a :: 8 word)) OR ucast (v :: 8 word) :: 16 word) AND 0xFF) :: 8 word) = a"
  unfolding ff_mask
  by (rule bit_word_eqI) (auto simp add: bit_simps dest: bit_imp_le_length)

lemma write_word_lo: "(ucast ((push_bit 8 (ucast (a :: 8 word)) OR ucast (v :: 8 word) :: 16 word) AND 0xFF) :: 8 word) = v"
  unfolding ff_mask
  by (rule bit_word_eqI) (auto simp add: bit_simps)

lemma read_word_hi: "(ucast (drop_bit 8 (push_bit 8 (ucast (a :: 8 word)) OR 0x8000 :: 16 word) AND 0xFF) :: 8 word) = a OR 0x80"
  unfolding ff_mask
  by (rule bit_word_eqI) (auto simp add: bit_simps bit_8000 bit_80)

lemma read_word_lo: "(ucast ((push_bit 8 (ucast (a :: 8 word)) OR 0x8000 :: 16 word) AND 0xFF) :: 8 word) = 0"
  unfolding ff_mask
  by (rule bit_word_eqI) (auto simp add: bit_simps bit_8000)

subsection \<open>GPIO bits\<close>

lemma shl1_Inr: "0 \<le> n \<Longrightarrow> n < 31 \<Longrightarrow> shl1 n = Inr (push_bit (nat n) 1)"
  by (simp add: shl1_def)

lemma bit_set_other: "i \<noteq> n \<Longrightarrow> bit ((r :: 32 word) OR 2 ^ n) i = bit r i"
  by (auto simp add: bit_simps)

lemma bit_clear_other: "i \<noteq> n \<Longrightarrow> bit ((r :: 32 word) AND NOT (2 ^ n)) i = bit r i"
  by (auto simp add: bit_simps dest: bit_imp_le_length)

lemma pinMode_frame:
  assumes "0 \<le> pin" "pin < 31"
  shows "\<exists>g'. pinMode pin function g = Inr g' \<and>
          list_all2 (\<lambda>r r'. \<forall>i. i \<noteq> nat pin \<longrightarrow> bit r' i = bit r i) (gpio_regs g) (gpio_regs g')"
  using assms
  by (simp add: pinMode_def shl1_Inr Let_def gpio_regs_def bit_set_other bit_clear_other)

lemma digitalWrite_frame:
  assumes "0 \<le> pin" "pin < 31"
  shows "\<exists>g'. digitalWrite pin val g = Inr g' \<and>
          list_all2 (\<lambda>r r'. \<forall>i. i \<noteq> nat pin \<longrightarrow> bit r' i = bit r i) (gpio_regs g) (gpio_regs g')"
  using assms
  by (simp add: digitalWrite_def shl1_Inr Let_def gpio_regs_def bit_set_other bit_clear_other)

lemma digitalRead_frame:
  assumes "0 \<le> pin" "pin < 32"
  shows "digitalRead pin g = Inr (uint (drop_bit (nat pin) (input_val g) AND 1), g)"
  using assms
  by (simp add: digitalRead_def shr_def)

lemma mapping_nth:
  "k < 20 \<Longrightarrow> digitalPinMapping ! k =
     (if k \<le> 7 then int k + 16 else if k = 14 then - 1 else if k \<le> 13 then int k - 8 else int k - 6)"
  unfolding digitalPinMapping_def
  by (auto simp add: nth_Cons')

lemma mapping_values:
  "0 \<le> pin \<Longrightarrow> pin \<le> 7 \<Longrightarrow> digitalPinMapping ! nat pin = pin + 16"
  "8 \<le> pin \<Longrightarrow> pin \<le> 13 \<Longrightarrow> digitalPinMapping ! nat pin = pin - 8"
  "15 \<le> pin \<Longrightarrow> pin \<le> 19 \<Longrightarrow> digitalPinMapping ! nat pin = pin - 6"
  by (auto simp add: mapping_nth)

lemma c_rem_small: "0 \<le> pin \<Longrightarrow> pin < 32 \<Longrightarrow> c_rem pin 32 = pin"
  by (simp add: c_rem_def sgn_if)

lemma pinToGPIO_valid:
  assumes "0 \<le> pin" "pin < 20" "pin \<noteq> 14"
  shows "pinToGPIO pin = Inr (digitalPinMapping ! nat pin)"
  using assms by (simp add: pinToGPIO_def array_read_def digitalPinMapping_def)

lemma mapping_range:
  assumes "0 \<le> pin" "pin < 20" "pin \<noteq> 14"
  shows "0 \<le> digitalPinMapping ! nat pin \<and> digitalPinMapping ! nat pin < 31"
  using assms by (auto simp add: mapping_nth)

subsection \<open>Busy-waits and single transfers\<close>

lemma polled_0: "polled ev 0 s = s"
  by (simp add: polled_def)

lemma polled_Suc: "polled ev (Suc n) s = polled ev n (access (ev 0) s)"
  by (simp add: polled_def access_def replicate_app_Cons_same)

lemma spin_ready: "flag s \<noteq> 0 \<Longrightarrow> spin flag ev s = Some (access (ev (flag s)) s)"
  by (subst spin.simps) (simp add: Let_def)

lemma spin_busy: "flag s = 0 \<Longrightarrow> spin flag ev s = spin flag ev (access (ev 0) s)"
  by (subst spin.simps) (simp add: Let_def)

lemma spin_returns:
  "(\<forall>k<n. flag (polled ev k s) = 0) \<Longrightarrow> flag (polled ev n s) \<noteq> 0 \<Longrightarrow>
   spin flag ev s = Some (access (ev (flag (polled ev n s))) (polled ev n s))"
proof (induction n arbitrary: s)
  case 0
  then show ?case by (simp add: polled_0 spin_ready)
next
  case (Suc n)
  have "flag (polled ev 0 s) = 0"
    using Suc.prems(1) by (rule allE [of _ 0]) simp
  then have busy: "flag s = 0"
    by (simp add: polled_0)
  have "\<forall>k<n. flag (polled ev k (access (ev 0) s)) = 0"
    using Suc.prems(1) by (simp add: polled_Suc [symmetric])
  moreover have "flag (polled ev n (access (ev 0) s)) \<noteq> 0"
    using Suc.prems(2) by (simp add: polled_Suc)
  ultimately have "spin flag ev (access (ev 0) s) =
      Some (access (ev (flag (polled ev n (access (ev 0) s)))) (polled ev n (access (ev 0) s)))"
    by (rule Suc.IH)
  then show ?case using spin_busy [of flag s ev, OF busy] by (simp add: polled_Suc)
qed

lemma spin_Some_D:
  assumes "spin flag ev s = Some s'"
  shows "\<exists>n. (\<forall>k<n. flag (polled ev k s) = 0) \<and> flag (polled ev n s) \<noteq> 0 \<and>
       s' = access (ev (flag (polled ev n s))) (polled ev n s)"
proof -
  let ?P = "\<lambda>flag ev s s'. \<exists>n. (\<forall>k<n. flag (polled ev k s) = 0) \<and> flag (polled ev n s) \<noteq> 0 \<and>
       s' = access (ev (flag (polled ev n s))) (polled ev n s)"
  have "?P flag ev s s'"
  proof (rule spin.raw_induct [where P = ?P and flag = flag and ev = ev and s = s and y = s'])
    show "spin flag ev s = Some s'" by (rule assms)
  next
    fix spin' :: "(machine \<Rightarrow> 1 word) \<Rightarrow> (1 word \<Rightarrow> event) \<Rightarrow> machine \<Rightarrow> machine option"
    fix flag ev s s'
    assume IH: "\<And>flag ev s s'. spin' flag ev s = Some s' \<Longrightarrow> ?P flag ev s s'"
      and body: "(let v = flag s
                  in if v = 0 then spin' flag ev (access (ev v) s) else Some (access (ev v) s)) =
                 Some s'"
    show "?P flag ev s s'"
    proof (cases "flag s = 0")
      case True
      with body have rec: "spin' flag ev (access (ev 0) s) = Some s'"
        by (simp add: Let_def)
      have "?P flag ev (access (ev 0) s) s'"
        by (rule IH [OF rec])
      then obtain n where n1: "\<forall>k<n. flag (polled ev k (access (ev 0) s)) = 0"
        and n2: "flag (polled ev n (access (ev 0) s)) \<noteq> 0"
        and n3: "s' = access (ev (flag (polled ev n (access (ev 0) s)))) (polled ev n (access (ev 0) s))"
        by (elim exE conjE)
      have before: "\<forall>k<Suc n. flag (polled ev k s) = 0"
      proof (intro allI impI)
        fix k assume k: "k < Suc n"
        show "flag (polled ev k s) = 0"
        proof (cases k)
          case 0
          with True show ?thesis by (simp add: polled_0)
        next
          case (Suc j)
          with k have "j < n" by simp
          with n1 have "flag (polled ev j (access (ev 0) s)) = 0" by simp
          then show ?thesis by (simp add: Suc polled_Suc)
        qed
      qed
      have now: "flag (polled ev (Suc n) s) \<noteq> 0"
        using n2 by (simp add: polled_Suc)
      have after: "s' = access (ev (flag (polled ev (Suc n) s))) (polled ev (Suc n) s)"
        using n3 by (simp add: polled_Suc)
      show ?thesis
        by (rule exI [of _ "Suc n"]) (intro conjI before now after)
    next
      case False
      with body have "s' = access (ev (flag s)) s" by (simp add: Let_def)
      then have after: "s' = access (ev (flag (polled ev 0 s))) (polled ev 0 s)"
        by (simp add: polled_0)
      have now: "flag (polled ev 0 s) \<noteq> 0"
        using False by (simp add: polled_0)
      have before: "\<forall>k<0. flag (polled ev k s) = 0"
        by simp
      show ?thesis
        by (rule exI [of _ 0]) (intro conjI before now after)
    qed
  qed
  then show ?thesis .
qed

lemma spin_None_iff: "spin flag ev s = None \<longleftrightarrow> (\<forall>n. flag (polled ev n s) = 0)"
proof
  assume none: "spin flag ev s = None"
  show "\<forall>n. flag (polled ev n s) = 0"
  proof (rule ccontr)
    assume "\<not> (\<forall>n. flag (polled ev n s) = 0)"
    then have ex: "\<exists>n. flag (polled ev n s) \<noteq> 0" by simp
    define m where "m = (LEAST n. flag (polled ev n s) \<noteq> 0)"
    have "flag (polled ev m s) \<noteq> 0"
      unfolding m_def using ex by (rule LeastI_ex)
    moreover have "\<forall>k<m. flag (polled ev k s) = 0"
    proof (intro allI impI)
      fix k assume "k < m"
      then have "\<not> flag (polled ev k s) \<noteq> 0"
        unfolding m_def by (rule not_less_Least)
      then show "flag (polled ev k s) = 0" by simp
    qed
    ultimately show False using spin_returns [of m flag ev s] none by simp
  qed
next
  assume never: "\<forall>n. flag (polled ev n s) = 0"
  show "spin flag ev s = None"
  proof (cases "spin flag ev s")
    case None
    then show ?thesis .
  next
    case (Some s')
    from spin_Some_D [OF Some] obtain n where "flag (polled ev n s) \<noteq> 0"
      by (elim exE conjE)
    with never show ?thesis by simp
  qed
qed

lemma word1_nonzero: "(x :: 1 word) \<noteq> 0 \<Longrightarrow> x = 1"
proof -
  assume "x \<noteq> 0"
  have "unat x < 2" using unsigned_less [of x, where 'a = nat] by simp
  moreover have "unat x \<noteq> 0" using \<open>x \<noteq> 0\<close> by (simp add: unat_eq_0)
  ultimately have "unat x = 1" by arith
  then show ?thesis by (simp add: word_unat_eq_iff)
qed




lemma tx_bytes_append: "tx_bytes (xs @ ys) = tx_bytes xs @ tx_bytes ys"
  by (induction xs rule: tx_bytes.induct) simp_all

lemma rx_bytes_append: "rx_bytes (xs @ ys) = rx_bytes xs @ rx_bytes ys"
  by (induction xs rule: rx_bytes.induct) simp_all

lemma tx_bytes_polls: "tx_bytes (replicate n (PollTxwm v)) = []" "tx_bytes (replicate n (PollRxwm v)) = []"
  by (induction n) simp_all

lemma rx_bytes_polls: "rx_bytes (replicate n (PollTxwm v)) = []" "rx_bytes (replicate n (PollRxwm v)) = []"
  by (induction n) simp_all

lemma spiSendReceive_Some_D:
  assumes "spiSendReceive p send s = Some (r, s')"
  shows "\<exists>n m. (\<forall>k<n. ip_txwm p (polled PollTxwm k s) = 0) \<and>
           ip_txwm p (polled PollTxwm n s) \<noteq> 0 \<and>
           (\<forall>k<m. ip_rxwm p (polled PollRxwm k
                (access (WriteTxdata send) (access (PollTxwm 1) (polled PollTxwm n s)))) = 0) \<and>
           ip_rxwm p (polled PollRxwm m
                (access (WriteTxdata send) (access (PollTxwm 1) (polled PollTxwm n s)))) \<noteq> 0 \<and>
           r = rxdata_data p (access (PollRxwm 1) (polled PollRxwm m
                (access (WriteTxdata send) (access (PollTxwm 1) (polled PollTxwm n s))))) \<and>
           s' = access (ReadRxdata r) (access (PollRxwm 1) (polled PollRxwm m
                (access (WriteTxdata send) (access (PollTxwm 1) (polled PollTxwm n s)))))"
proof -
  from assms obtain s1 where s1: "spin (ip_txwm p) PollTxwm s = Some s1"
    by (auto simp add: spiSendReceive_def split: option.splits)
  from spin_Some_D [OF s1] obtain n where n:
    "\<forall>k<n. ip_txwm p (polled PollTxwm k s) = 0"
    "ip_txwm p (polled PollTxwm n s) \<noteq> 0"
    "s1 = access (PollTxwm (ip_txwm p (polled PollTxwm n s))) (polled PollTxwm n s)"
    by blast
  from n(3) have s1': "s1 = access (PollTxwm 1) (polled PollTxwm n s)"
    using word1_nonzero [OF n(2)] by simp
  from assms s1 obtain s3 where
    s3: "spin (ip_rxwm p) PollRxwm (access (WriteTxdata send) s1) = Some s3"
    by (auto simp add: spiSendReceive_def Let_def split: option.splits)
  from spin_Some_D [OF s3] obtain m where m:
    "\<forall>k<m. ip_rxwm p (polled PollRxwm k (access (WriteTxdata send) s1)) = 0"
    "ip_rxwm p (polled PollRxwm m (access (WriteTxdata send) s1)) \<noteq> 0"
    "s3 = access (PollRxwm (ip_rxwm p (polled PollRxwm m (access (WriteTxdata send) s1))))
            (polled PollRxwm m (access (WriteTxdata send) s1))"
    by blast
  from m(3) have s3': "s3 = access (PollRxwm 1) (polled PollRxwm m (access (WriteTxdata send) s1))"
    using word1_nonzero [OF m(2)] by simp
  from assms s1 s3 have res: "r = rxdata_data p s3" "s' = access (ReadRxdata r) s3"
    by (auto simp add: spiSendReceive_def Let_def)
  from n(1,2) m(1,2) res show ?thesis
    unfolding s3' s1' by blast
qed

lemma spiSendReceive_returns:
  assumes "\<forall>k<n. ip_txwm p (polled PollTxwm k s) = 0"
    and "ip_txwm p (polled PollTxwm n s) \<noteq> 0"
    and "\<forall>k<m. ip_rxwm p (polled PollRxwm k
                (access (WriteTxdata send) (access (PollTxwm 1) (polled PollTxwm n s)))) = 0"
    and "ip_rxwm p (polled PollRxwm m
                (access (WriteTxdata send) (access (PollTxwm 1) (polled PollTxwm n s)))) \<noteq> 0"
  shows "spiSendReceive p send s =
      Some (rxdata_data p (access (PollRxwm 1) (polled PollRxwm m
                (access (WriteTxdata send) (access (PollTxwm 1) (polled PollTxwm n s))))),
            access (ReadRxdata (rxdata_data p (access (PollRxwm 1) (polled PollRxwm m
                (access (WriteTxdata send) (access (PollTxwm 1) (polled PollTxwm n s)))))))
              (access (PollRxwm 1) (polled PollRxwm m
                (access (WriteTxdata send) (access (PollTxwm 1) (polled PollTxwm n s))))))"
proof -
  have s1: "spin (ip_txwm p) PollTxwm s = Some (access (PollTxwm 1) (polled PollTxwm n s))"
    using spin_returns [OF assms(1,2)] word1_nonzero [OF assms(2)] by simp
  have s3: "spin (ip_rxwm p) PollRxwm
        (access (WriteTxdata send) (access (PollTxwm 1) (polled PollTxwm n s))) =
      Some (access (PollRxwm 1) (polled PollRxwm m
                (access (WriteTxdata send) (access (PollTxwm 1) (polled PollTxwm n s)))))"
    using spin_returns [OF assms(3,4)] word1_nonzero [OF assms(4)] by simp
  show ?thesis
    by (simp add: spiSendReceive_def s1 s3 Let_def)
qed

lemma spiSendReceive_frame:
  assumes "spiSendReceive p send s = Some (r, s')"
  shows "gpio s' = gpio s" "spi s' = spi s"
    "\<exists>n m. bus s' = bus s @ replicate n (PollTxwm 0) @ [PollTxwm 1, WriteTxdata send] @
        replicate m (PollRxwm 0) @ [PollRxwm 1, ReadRxdata r]"
proof -
  from spiSendReceive_Some_D [OF assms] obtain n m where
    s': "s' = access (ReadRxdata r) (access (PollRxwm 1) (polled PollRxwm m
                (access (WriteTxdata send) (access (PollTxwm 1) (polled PollTxwm n s)))))"
    by blast
  show "gpio s' = gpio s" "spi s' = spi s"
    by (simp_all add: s' access_def polled_def)
  have "bus s' = bus s @ replicate n (PollTxwm 0) @ [PollTxwm 1, WriteTxdata send] @
        replicate m (PollRxwm 0) @ [PollRxwm 1, ReadRxdata r]"
    by (simp add: s' access_def polled_def)
  then show "\<exists>n m. bus s' = bus s @ replicate n (PollTxwm 0) @ [PollTxwm 1, WriteTxdata send] @
        replicate m (PollRxwm 0) @ [PollRxwm 1, ReadRxdata r]"
    by blast
qed

lemma spiSendReceive_bytes:
  assumes "spiSendReceive p send s = Some (r, s')"
  shows "tx_bytes (bus s') = tx_bytes (bus s) @ [send]" "rx_bytes (bus s') = rx_bytes (bus s) @ [r]"
  using spiSendReceive_frame(3) [OF assms]
  by (auto simp add: tx_bytes_append rx_bytes_append tx_bytes_polls rx_bytes_polls)

lemma spiSendReceive_None_iff:
  "spiSendReceive p send s = None \<longleftrightarrow>
     (\<forall>n. ip_txwm p (polled PollTxwm n s) = 0) \<or>
     (\<exists>n. (\<forall>k<n. ip_txwm p (polled PollTxwm k s) = 0) \<and>
          ip_txwm p (polled PollTxwm n s) \<noteq> 0 \<and>
          (\<forall>m. ip_rxwm p (polled PollRxwm m
              (access (WriteTxdata send) (access (PollTxwm 1) (polled PollTxwm n s)))) = 0))"
  (is "?L \<longleftrightarrow> ?A \<or> ?B")
proof (cases "spin (ip_txwm p) PollTxwm s")
  case None
  then have "?L" by (simp add: spiSendReceive_def)
  moreover from None have "?A" by (simp add: spin_None_iff)
  ultimately show ?thesis by simp
next
  case (Some s1)
  from spin_Some_D [OF Some] obtain n where n:
    "\<forall>k<n. ip_txwm p (polled PollTxwm k s) = 0"
    "ip_txwm p (polled PollTxwm n s) \<noteq> 0"
    "s1 = access (PollTxwm (ip_txwm p (polled PollTxwm n s))) (polled PollTxwm n s)"
    by blast
  from n(3) have s1: "s1 = access (PollTxwm 1) (polled PollTxwm n s)"
    using word1_nonzero [OF n(2)] by simp
  have notA: "\<not> ?A" using n(2) by blast
  have first: "n' = n" if "\<forall>k<n'. ip_txwm p (polled PollTxwm k s) = 0"
      "ip_txwm p (polled PollTxwm n' s) \<noteq> 0" for n'
    using that n(1,2) by (meson linorder_neqE_nat)
  have "?L \<longleftrightarrow> spin (ip_rxwm p) PollRxwm (access (WriteTxdata send) s1) = None"
    by (simp add: spiSendReceive_def Some Let_def split: option.splits)
  also have "\<dots> \<longleftrightarrow> (\<forall>m. ip_rxwm p (polled PollRxwm m (access (WriteTxdata send) s1)) = 0)"
    by (rule spin_None_iff)
  also have "\<dots> \<longleftrightarrow> ?B"
    unfolding s1 using n(1,2) first by blast
  finally have "?L \<longleftrightarrow> ?B" .
  with notA show ?thesis by blast
qed

subsection \<open>Word transfers and the concrete peripherals\<close>

lemma spiSendReceive16_unfold:
  "spiSendReceive16 p x s =
     (case spiSendReceive p (ucast (drop_bit 8 x AND 0xFF)) (s\<lparr>spi := (spi s)\<lparr>csmode_mode := 2\<rparr>\<rparr>) of
        None \<Rightarrow> None
      | Some (r1, s1) \<Rightarrow>
          (case spiSendReceive p (ucast (x AND 0xFF)) s1 of
             None \<Rightarrow> None
           | Some (r2, s2) \<Rightarrow>
               Some (push_bit 8 (ucast r1) OR ucast r2, s2\<lparr>spi := (spi s2)\<lparr>csmode_mode := 0\<rparr>\<rparr>)))"
  unfolding spiSendReceive16_def Let_def hi_byte_promoted lo_byte_promoted compose_promoted
  by (rule refl)

lemma spiSendReceive16_Some_D:
  assumes "spiSendReceive16 p x s = Some (r, s')"
  shows "\<exists>r1 s1 r2 s2.
      spiSendReceive p (ucast (drop_bit 8 x AND 0xFF)) (s\<lparr>spi := (spi s)\<lparr>csmode_mode := 2\<rparr>\<rparr>) =
        Some (r1, s1) \<and>
      spiSendReceive p (ucast (x AND 0xFF)) s1 = Some (r2, s2) \<and>
      r = push_bit 8 (ucast r1) OR ucast r2 \<and>
      s' = s2\<lparr>spi := (spi s2)\<lparr>csmode_mode := 0\<rparr>\<rparr>"
proof (cases "spiSendReceive p (ucast (drop_bit 8 x AND 0xFF)) (s\<lparr>spi := (spi s)\<lparr>csmode_mode := 2\<rparr>\<rparr>)")
  case None
  with assms show ?thesis by (simp add: spiSendReceive16_unfold)
next
  case first: (Some a)
  obtain r1 s1 where a: "a = (r1, s1)" by (cases a)
  show ?thesis
  proof (cases "spiSendReceive p (ucast (x AND 0xFF)) s1")
    case None
    with assms first a show ?thesis by (simp add: spiSendReceive16_unfold)
  next
    case second: (Some b)
    obtain r2 s2 where b: "b = (r2, s2)" by (cases b)
    from assms first a second b
    have "r = push_bit 8 (ucast r1) OR ucast r2" "s' = s2\<lparr>spi := (spi s2)\<lparr>csmode_mode := 0\<rparr>\<rparr>"
      by (simp_all add: spiSendReceive16_unfold)
    with first a second b show ?thesis by simp
  qed
qed

lemma spiSendReceive16_effect:
  assumes "spiSendReceive16 p x s = Some (r, s')"
  shows "\<exists>r1 r2. tx_bytes (bus s') =
             tx_bytes (bus s) @ [ucast (drop_bit 8 x AND 0xFF), ucast (x AND 0xFF)] \<and>
           rx_bytes (bus s') = rx_bytes (bus s) @ [r1, r2] \<and>
           r = push_bit 8 (ucast r1) OR ucast r2"
    and "spi s' = (spi s)\<lparr>csmode_mode := 0\<rparr>"
    and "gpio s' = gpio s"
proof -
  from spiSendReceive16_Some_D [OF assms] obtain r1 s1 r2 s2 where
    a: "spiSendReceive p (ucast (drop_bit 8 x AND 0xFF)) (s\<lparr>spi := (spi s)\<lparr>csmode_mode := 2\<rparr>\<rparr>) =
        Some (r1, s1)"
    and b: "spiSendReceive p (ucast (x AND 0xFF)) s1 = Some (r2, s2)"
    and r: "r = push_bit 8 (ucast r1) OR ucast r2"
    and s': "s' = s2\<lparr>spi := (spi s2)\<lparr>csmode_mode := 0\<rparr>\<rparr>"
    by (elim exE conjE)
  have tx: "tx_bytes (bus s') =
      tx_bytes (bus s) @ [ucast (drop_bit 8 x AND 0xFF), ucast (x AND 0xFF)]"
    using spiSendReceive_bytes(1) [OF a] spiSendReceive_bytes(1) [OF b] by (simp add: s')
  have rx: "rx_bytes (bus s') = rx_bytes (bus s) @ [r1, r2]"
    using spiSendReceive_bytes(2) [OF a] spiSendReceive_bytes(2) [OF b] by (simp add: s')
  from tx rx r show "\<exists>r1 r2. tx_bytes (bus s') =
             tx_bytes (bus s) @ [ucast (drop_bit 8 x AND 0xFF), ucast (x AND 0xFF)] \<and>
           rx_bytes (bus s') = rx_bytes (bus s) @ [r1, r2] \<and>
           r = push_bit 8 (ucast r1) OR ucast r2"
    by (intro exI [of _ r1] exI [of _ r2] conjI)
  show "spi s' = (spi s)\<lparr>csmode_mode := 0\<rparr>"
    using spiSendReceive_frame(2) [OF a] spiSendReceive_frame(2) [OF b] by (simp add: s')
  show "gpio s' = gpio s"
    using spiSendReceive_frame(1) [OF a] spiSendReceive_frame(1) [OF b] by (simp add: s')
qed

lemma spiSendReceive_loopback:
  "spiSendReceive loopback b s =
     Some (b, s\<lparr>bus := bus s @ [PollTxwm 1, WriteTxdata b, PollRxwm 1, ReadRxdata b]\<rparr>)"
proof -
  have tx: "ip_txwm loopback (polled PollTxwm 0 s) \<noteq> 0"
    by (simp add: loopback_def)
  have rx: "ip_rxwm loopback (polled PollRxwm 0
      (access (WriteTxdata b) (access (PollTxwm 1) (polled PollTxwm 0 s)))) \<noteq> 0"
    by (simp add: loopback_def)
  have none: "\<forall>k<(0::nat). P k" for P by simp
  from spiSendReceive_returns [where n = 0 and m = 0 and p = loopback and s = s and send = b,
      OF none tx none rx]
  show ?thesis
    by (simp add: loopback_def polled_def access_def last_tx_def tx_bytes_append)
qed

lemma spiSendReceive_slow_loopback:
  assumes "bus s = []"
  shows "spiSendReceive slow_loopback b s =
     Some (b, s\<lparr>bus := [PollTxwm 0, PollTxwm 1, WriteTxdata b, PollRxwm 0, PollRxwm 1, ReadRxdata b]\<rparr>)"
proof -
  have tx0: "\<forall>k<1. ip_txwm slow_loopback (polled PollTxwm k s) = 0"
    using assms by (simp add: slow_loopback_def polled_def)
  have tx1: "ip_txwm slow_loopback (polled PollTxwm 1 s) \<noteq> 0"
    using assms by (simp add: slow_loopback_def polled_def)
  have rx0: "\<forall>k<1. ip_rxwm slow_loopback (polled PollRxwm k
      (access (WriteTxdata b) (access (PollTxwm 1) (polled PollTxwm 1 s)))) = 0"
    using assms by (simp add: slow_loopback_def polled_def access_def)
  have rx1: "ip_rxwm slow_loopback (polled PollRxwm 1
      (access (WriteTxdata b) (access (PollTxwm 1) (polled PollTxwm 1 s)))) \<noteq> 0"
    using assms by (simp add: slow_loopback_def polled_def access_def)
  from spiSendReceive_returns [where n = 1 and m = 1 and p = slow_loopback and s = s and send = b,
      OF tx0 tx1 rx0 rx1]
  show ?thesis
    using assms
    by (simp add: slow_loopback_def polled_def access_def last_tx_def tx_bytes_append)
qed

lemma spiSendReceive16_loopback:
  "spiSendReceive16 loopback x s =
    Some (push_bit 8 (ucast (ucast (drop_bit 8 x AND 0xFF) :: 8 word)) OR
            ucast (ucast (x AND 0xFF) :: 8 word),
          s\<lparr>spi := (spi s)\<lparr>csmode_mode := 0\<rparr>,
            bus := bus s @
              [PollTxwm 1, WriteTxdata (ucast (drop_bit 8 x AND 0xFF)), PollRxwm 1,
               ReadRxdata (ucast (drop_bit 8 x AND 0xFF)),
               PollTxwm 1, WriteTxdata (ucast (x AND 0xFF)), PollRxwm 1,
               ReadRxdata (ucast (x AND 0xFF))]\<rparr>)"
  by (simp add: spiSendReceive16_unfold spiSendReceive_loopback)

section \<open>The pin functions\<close>

text \<open>
  Claim C10. For a pin from 0 to 19 other than 14, \<^verbatim>\<open>pinToGPIO\<close> returns the entry of
  \<^verbatim>\<open>digitalPinMapping\<close>: 16 to 23 for the pins 0 to 7, 0 to 5 for the pins 8 to 13 and 9 to 13
  for the pins 15 to 19. For pin 14 and for every pin from 20 on it returns -1. A negative
  pin passes the guard, and the array is then read outside its bounds.
\<close>

theorem pinToGPIO_table:
  "(0 \<le> pin \<and> pin < 20 \<and> pin \<noteq> 14 \<longrightarrow> pinToGPIO pin = Inr (digitalPinMapping ! nat pin)) \<and>
   (0 \<le> pin \<and> pin \<le> 7 \<longrightarrow> pinToGPIO pin = Inr (pin + 16)) \<and>
   (8 \<le> pin \<and> pin \<le> 13 \<longrightarrow> pinToGPIO pin = Inr (pin - 8)) \<and>
   (15 \<le> pin \<and> pin \<le> 19 \<longrightarrow> pinToGPIO pin = Inr (pin - 6)) \<and>
   (pin = 14 \<or> 20 \<le> pin \<longrightarrow> pinToGPIO pin = Inr (- 1)) \<and>
   (pin < 0 \<longrightarrow> pinToGPIO pin = Inl OutOfBounds)"
proof (intro conjI impI)
  assume "0 \<le> pin \<and> pin < 20 \<and> pin \<noteq> 14"
  then show "pinToGPIO pin = Inr (digitalPinMapping ! nat pin)"
    by (simp add: pinToGPIO_valid)
next
  assume "0 \<le> pin \<and> pin \<le> 7"
  then show "pinToGPIO pin = Inr (pin + 16)"
    by (simp add: pinToGPIO_valid mapping_values)
next
  assume "8 \<le> pin \<and> pin \<le> 13"
  then show "pinToGPIO pin = Inr (pin - 8)"
    by (simp add: pinToGPIO_valid mapping_values)
next
  assume "15 \<le> pin \<and> pin \<le> 19"
  then show "pinToGPIO pin = Inr (pin - 6)"
    by (simp add: pinToGPIO_valid mapping_values)
next
  assume "pin = 14 \<or> 20 \<le> pin"
  then show "pinToGPIO pin = Inr (- 1)"
    by (auto simp add: pinToGPIO_def)
next
  assume "pin < 0"
  then show "pinToGPIO pin = Inl OutOfBounds"
    by (simp add: pinToGPIO_def array_read_def)
qed

theorem pinToGPIO_table_witness:
  "pinToGPIO 3 = Inr 19 \<and> pinToGPIO 10 = Inr 2 \<and> pinToGPIO 17 = Inr 11 \<and>
   pinToGPIO 14 = Inr (- 1) \<and> pinToGPIO 25 = Inr (- 1) \<and> pinToGPIO (- 1) = Inl OutOfBounds"
proof -
  have "pinToGPIO 3 = Inr 19"
    using pinToGPIO_table [of 3, THEN conjunct2, THEN conjunct1] by simp
  moreover have "pinToGPIO 10 = Inr 2"
    using pinToGPIO_table [of 10, THEN conjunct2, THEN conjunct2, THEN conjunct1] by simp
  moreover have "pinToGPIO 17 = Inr 11"
    using pinToGPIO_table [of 17, THEN conjunct2, THEN conjunct2, THEN conjunct2, THEN conjunct1]
    by simp
  moreover have "pinToGPIO 14 = Inr (- 1)" "pinToGPIO 25 = Inr (- 1)"
    using pinToGPIO_table [of 14] pinToGPIO_table [of 25] by simp_all
  moreover have "pinToGPIO (- 1) = Inl OutOfBounds"
    using pinToGPIO_table [of "- 1"] by simp
  ultimately show ?thesis by (intro conjI)
qed

text \<open>
  Claim C5. For every pin from 0 to 19 other than 14 and every mode and value,
  \<^verbatim>\<open>pinMode\<close>, \<^verbatim>\<open>digitalWrite\<close> and \<^verbatim>\<open>digitalRead\<close> return normally and leave every bit of
  every GPIO register as it was, except the bit of that pin: bit \<open>pin\<close> in
  \<^verbatim>\<open>EasyREDVIO_ThingPlus.h\<close>, bit \<^verbatim>\<open>digitalPinMapping[pin]\<close> in \<^verbatim>\<open>EasyREDVIO.h\<close>.
\<close>

theorem valid_pin_only_own_bit:
  assumes "0 \<le> pin" and "pin \<le> 19" and "pin \<noteq> 14"
  shows "(\<exists>g'. pinMode pin function g = Inr g' \<and>
            list_all2 (\<lambda>r r'. \<forall>i. i \<noteq> nat pin \<longrightarrow> bit r' i = bit r i) (gpio_regs g) (gpio_regs g')) \<and>
         (\<exists>g'. digitalWrite pin val g = Inr g' \<and>
            list_all2 (\<lambda>r r'. \<forall>i. i \<noteq> nat pin \<longrightarrow> bit r' i = bit r i) (gpio_regs g) (gpio_regs g')) \<and>
         (\<exists>v. digitalRead pin g = Inr (v, g)) \<and>
         (\<exists>g'. EasyREDVIO_pinMode pin function g = Inr g' \<and>
            list_all2 (\<lambda>r r'. \<forall>i. i \<noteq> nat (digitalPinMapping ! nat pin) \<longrightarrow> bit r' i = bit r i)
              (gpio_regs g) (gpio_regs g')) \<and>
         (\<exists>g'. EasyREDVIO_digitalWrite pin val g = Inr g' \<and>
            list_all2 (\<lambda>r r'. \<forall>i. i \<noteq> nat (digitalPinMapping ! nat pin) \<longrightarrow> bit r' i = bit r i)
              (gpio_regs g) (gpio_regs g')) \<and>
         (\<exists>v. EasyREDVIO_digitalRead pin g = Inr (v, g))"
proof -
  from assms have small: "pin < 31" "pin < 32" "pin < 20" by simp_all
  have map: "pinToGPIO (c_rem pin 32) = Inr (digitalPinMapping ! nat pin)"
    using assms small by (simp add: c_rem_small pinToGPIO_valid)
  have range: "0 \<le> digitalPinMapping ! nat pin" "digitalPinMapping ! nat pin < 31"
    "digitalPinMapping ! nat pin < 32"
    using mapping_range [OF assms(1) small(3) assms(3)] by simp_all
  have 1: "\<exists>g'. pinMode pin function g = Inr g' \<and>
      list_all2 (\<lambda>r r'. \<forall>i. i \<noteq> nat pin \<longrightarrow> bit r' i = bit r i) (gpio_regs g) (gpio_regs g')"
    by (rule pinMode_frame [OF assms(1) small(1)])
  have 2: "\<exists>g'. digitalWrite pin val g = Inr g' \<and>
      list_all2 (\<lambda>r r'. \<forall>i. i \<noteq> nat pin \<longrightarrow> bit r' i = bit r i) (gpio_regs g) (gpio_regs g')"
    by (rule digitalWrite_frame [OF assms(1) small(1)])
  have 3: "\<exists>v. digitalRead pin g = Inr (v, g)"
    using digitalRead_frame [OF assms(1) small(2)] by simp
  have 4: "\<exists>g'. EasyREDVIO_pinMode pin function g = Inr g' \<and>
      list_all2 (\<lambda>r r'. \<forall>i. i \<noteq> nat (digitalPinMapping ! nat pin) \<longrightarrow> bit r' i = bit r i)
        (gpio_regs g) (gpio_regs g')"
    using pinMode_frame [OF range(1,2)] by (simp add: EasyREDVIO_pinMode_def map)
  have 5: "\<exists>g'. EasyREDVIO_digitalWrite pin val g = Inr g' \<and>
      list_all2 (\<lambda>r r'. \<forall>i. i \<noteq> nat (digitalPinMapping ! nat pin) \<longrightarrow> bit r' i = bit r i)
        (gpio_regs g) (gpio_regs g')"
    using digitalWrite_frame [OF range(1,2)] by (simp add: EasyREDVIO_digitalWrite_def map)
  have 6: "\<exists>v. EasyREDVIO_digitalRead pin g = Inr (v, g)"
    using digitalRead_frame [OF range(1,3)] by (simp add: EasyREDVIO_digitalRead_def map)
  from 1 2 3 4 5 6 show ?thesis by (intro conjI)
qed

theorem valid_pin_only_own_bit_witness:
  "(\<exists>g'. pinMode 13 OUTPUT gpio_zero = Inr g' \<and>
      list_all2 (\<lambda>r r'. \<forall>i. i \<noteq> nat 13 \<longrightarrow> bit r' i = bit r i) (gpio_regs gpio_zero) (gpio_regs g')) \<and>
   (\<exists>g'. digitalWrite 13 HIGH gpio_zero = Inr g' \<and>
      list_all2 (\<lambda>r r'. \<forall>i. i \<noteq> nat 13 \<longrightarrow> bit r' i = bit r i) (gpio_regs gpio_zero) (gpio_regs g')) \<and>
   (\<exists>v. digitalRead 13 gpio_zero = Inr (v, gpio_zero))"
proof -
  have h: "(0::int) \<le> 13" "(13::int) \<le> 19" "(13::int) \<noteq> 14" by simp_all
  from valid_pin_only_own_bit [OF h, of OUTPUT gpio_zero HIGH] show ?thesis
    by (elim conjE) (intro conjI)
qed

text \<open>
  Claim C4. Pin 14 is the reserved pin of the mapping of \<^verbatim>\<open>EasyREDVIO.h\<close>: \<^verbatim>\<open>pinToGPIO\<close>
  returns -1 for it. \<^verbatim>\<open>pinMode\<close> with each of the modes \<^verbatim>\<open>INPUT\<close>, \<^verbatim>\<open>OUTPUT\<close> and
  \<^verbatim>\<open>GPIO_IOF0\<close>, \<^verbatim>\<open>digitalWrite\<close> with every value and \<^verbatim>\<open>digitalRead\<close> do not check for it and
  shift by -1, which C leaves undefined, whatever the registers hold: the code does not
  keep the registers unchanged for pin 14. \<^verbatim>\<open>pinMode\<close> with the mode 3, which is none of
  the three and evaluates no shift, changes nothing.
\<close>

theorem EasyREDVIO_pin14_undefined:
  "pinToGPIO (c_rem 14 32) = Inr (- 1) \<and>
   EasyREDVIO_pinMode 14 INPUT g = Inl UndefinedShift \<and>
   EasyREDVIO_pinMode 14 OUTPUT g = Inl UndefinedShift \<and>
   EasyREDVIO_pinMode 14 GPIO_IOF0 g = Inl UndefinedShift \<and>
   EasyREDVIO_digitalWrite 14 val g = Inl UndefinedShift \<and>
   EasyREDVIO_digitalRead 14 g = Inl UndefinedShift \<and>
   EasyREDVIO_pinMode 14 3 g = Inr g"
  by (simp add: EasyREDVIO_pinMode_def EasyREDVIO_digitalWrite_def EasyREDVIO_digitalRead_def
      c_rem_def pinToGPIO_def pinMode_def digitalWrite_def digitalRead_def shl1_def shr_def)

section \<open>The SPI driver\<close>

text \<open>
  Claim C8. For every clock divisor, polarity and phase, \<^verbatim>\<open>spiInit\<close> returns, and a second
  call with the same arguments leaves the machine (the GPIO and SPI registers and the
  bus) as the first call left it.
\<close>

theorem spiInit_idempotent:
  "\<exists>s1. spiInit clkdivide cpol cpha s = Inr s1 \<and> spiInit clkdivide cpol cpha s1 = Inr s1"
  by (simp add: spiInit_def pinMode_def shl1_def Let_def word_bw_assocs)

text \<open>
  Claim C6. For every byte \<^verbatim>\<open>send\<close>, \<^verbatim>\<open>spiSendReceive\<close> polls \<^verbatim>\<open>ip.txwm\<close> until the peripheral
  shows it set, then writes \<^verbatim>\<open>send\<close> to \<^verbatim>\<open>txdata\<close>, then polls \<^verbatim>\<open>ip.rxwm\<close> until the
  peripheral shows it set, then reads \<^verbatim>\<open>rxdata\<close> and returns the byte read. It returns \<open>r\<close>
  on the machine \<open>s'\<close> exactly when there are \<open>n\<close> and \<open>m\<close> such that the peripheral shows
  \<^verbatim>\<open>ip.txwm\<close> clear at the first \<open>n\<close> polls and set at the next, shows \<^verbatim>\<open>ip.rxwm\<close> clear at the
  first \<open>m\<close> polls after the write and set at the next, \<open>r\<close> is what the peripheral then
  shows in \<^verbatim>\<open>rxdata\<close>, and \<open>s'\<close> is the machine after these accesses. The accesses of a call
  that returns are these, in this order, and no others; it changes no GPIO or SPI
  register.
\<close>

theorem spiSendReceive_steps:
  "(spiSendReceive p send s = Some (r, s') \<longleftrightarrow>
      (\<exists>n m. (\<forall>k<n. ip_txwm p (polled PollTxwm k s) = 0) \<and>
             ip_txwm p (polled PollTxwm n s) \<noteq> 0 \<and>
             (\<forall>k<m. ip_rxwm p (polled PollRxwm k
                (access (WriteTxdata send) (access (PollTxwm 1) (polled PollTxwm n s)))) = 0) \<and>
             ip_rxwm p (polled PollRxwm m
                (access (WriteTxdata send) (access (PollTxwm 1) (polled PollTxwm n s)))) \<noteq> 0 \<and>
             r = rxdata_data p (access (PollRxwm 1) (polled PollRxwm m
                (access (WriteTxdata send) (access (PollTxwm 1) (polled PollTxwm n s))))) \<and>
             s' = access (ReadRxdata r) (access (PollRxwm 1) (polled PollRxwm m
                (access (WriteTxdata send) (access (PollTxwm 1) (polled PollTxwm n s))))))) \<and>
   (spiSendReceive p send s = Some (r, s') \<longrightarrow>
      (\<exists>n m. bus s' = bus s @ replicate n (PollTxwm 0) @ [PollTxwm 1, WriteTxdata send] @
                 replicate m (PollRxwm 0) @ [PollRxwm 1, ReadRxdata r] \<and>
               r = rxdata_data p (s'\<lparr>bus := butlast (bus s')\<rparr>) \<and>
               gpio s' = gpio s \<and> spi s' = spi s))"
proof (intro conjI impI iffI)
  assume "spiSendReceive p send s = Some (r, s')"
  then show "\<exists>n m. (\<forall>k<n. ip_txwm p (polled PollTxwm k s) = 0) \<and>
             ip_txwm p (polled PollTxwm n s) \<noteq> 0 \<and>
             (\<forall>k<m. ip_rxwm p (polled PollRxwm k
                (access (WriteTxdata send) (access (PollTxwm 1) (polled PollTxwm n s)))) = 0) \<and>
             ip_rxwm p (polled PollRxwm m
                (access (WriteTxdata send) (access (PollTxwm 1) (polled PollTxwm n s)))) \<noteq> 0 \<and>
             r = rxdata_data p (access (PollRxwm 1) (polled PollRxwm m
                (access (WriteTxdata send) (access (PollTxwm 1) (polled PollTxwm n s))))) \<and>
             s' = access (ReadRxdata r) (access (PollRxwm 1) (polled PollRxwm m
                (access (WriteTxdata send) (access (PollTxwm 1) (polled PollTxwm n s)))))"
    by (rule spiSendReceive_Some_D)
next
  assume "\<exists>n m. (\<forall>k<n. ip_txwm p (polled PollTxwm k s) = 0) \<and>
             ip_txwm p (polled PollTxwm n s) \<noteq> 0 \<and>
             (\<forall>k<m. ip_rxwm p (polled PollRxwm k
                (access (WriteTxdata send) (access (PollTxwm 1) (polled PollTxwm n s)))) = 0) \<and>
             ip_rxwm p (polled PollRxwm m
                (access (WriteTxdata send) (access (PollTxwm 1) (polled PollTxwm n s)))) \<noteq> 0 \<and>
             r = rxdata_data p (access (PollRxwm 1) (polled PollRxwm m
                (access (WriteTxdata send) (access (PollTxwm 1) (polled PollTxwm n s))))) \<and>
             s' = access (ReadRxdata r) (access (PollRxwm 1) (polled PollRxwm m
                (access (WriteTxdata send) (access (PollTxwm 1) (polled PollTxwm n s)))))"
  then obtain n m where tx0: "\<forall>k<n. ip_txwm p (polled PollTxwm k s) = 0"
    and tx1: "ip_txwm p (polled PollTxwm n s) \<noteq> 0"
    and rx0: "\<forall>k<m. ip_rxwm p (polled PollRxwm k
                (access (WriteTxdata send) (access (PollTxwm 1) (polled PollTxwm n s)))) = 0"
    and rx1: "ip_rxwm p (polled PollRxwm m
                (access (WriteTxdata send) (access (PollTxwm 1) (polled PollTxwm n s)))) \<noteq> 0"
    and r: "r = rxdata_data p (access (PollRxwm 1) (polled PollRxwm m
                (access (WriteTxdata send) (access (PollTxwm 1) (polled PollTxwm n s)))))"
    and s': "s' = access (ReadRxdata r) (access (PollRxwm 1) (polled PollRxwm m
                (access (WriteTxdata send) (access (PollTxwm 1) (polled PollTxwm n s)))))"
    by (elim exE conjE)
  show "spiSendReceive p send s = Some (r, s')"
    unfolding s' unfolding r by (rule spiSendReceive_returns [OF tx0 tx1 rx0 rx1])
next
  assume ret: "spiSendReceive p send s = Some (r, s')"
  from spiSendReceive_Some_D [OF ret] obtain n m where
    r: "r = rxdata_data p (access (PollRxwm 1) (polled PollRxwm m
                (access (WriteTxdata send) (access (PollTxwm 1) (polled PollTxwm n s)))))"
    and s': "s' = access (ReadRxdata r) (access (PollRxwm 1) (polled PollRxwm m
                (access (WriteTxdata send) (access (PollTxwm 1) (polled PollTxwm n s)))))"
    by (elim exE conjE)
  have before: "s'\<lparr>bus := butlast (bus s')\<rparr> = access (PollRxwm 1) (polled PollRxwm m
                (access (WriteTxdata send) (access (PollTxwm 1) (polled PollTxwm n s))))"
    unfolding s' by (simp add: access_def butlast_append)
  have 1: "bus s' = bus s @ replicate n (PollTxwm 0) @ [PollTxwm 1, WriteTxdata send] @
                 replicate m (PollRxwm 0) @ [PollRxwm 1, ReadRxdata r]"
    unfolding s' by (simp add: access_def polled_def)
  have 2: "r = rxdata_data p (s'\<lparr>bus := butlast (bus s')\<rparr>)"
    unfolding before by (rule r)
  have 3: "gpio s' = gpio s" "spi s' = spi s"
    unfolding s' by (simp_all add: access_def polled_def)
  from 1 2 3 show "\<exists>n m. bus s' = bus s @ replicate n (PollTxwm 0) @ [PollTxwm 1, WriteTxdata send] @
                 replicate m (PollRxwm 0) @ [PollRxwm 1, ReadRxdata r] \<and>
               r = rxdata_data p (s'\<lparr>bus := butlast (bus s')\<rparr>) \<and>
               gpio s' = gpio s \<and> spi s' = spi s"
    by (intro exI [of _ n] exI [of _ m] conjI)
qed

theorem spiSendReceive_steps_witness:
  "spiSendReceive slow_loopback 0x5A machine_zero =
     Some (0x5A, machine_zero\<lparr>bus := [PollTxwm 0, PollTxwm 1, WriteTxdata 0x5A,
                                       PollRxwm 0, PollRxwm 1, ReadRxdata 0x5A]\<rparr>) \<and>
   ip_txwm slow_loopback machine_zero = 0 \<and>
   ip_txwm slow_loopback (polled PollTxwm 1 machine_zero) = 1 \<and>
   spiSendReceive silent 0x5A machine_zero \<noteq>
     Some (0x5A, machine_zero\<lparr>bus := [PollTxwm 0, PollTxwm 1, WriteTxdata 0x5A,
                                       PollRxwm 0, PollRxwm 1, ReadRxdata 0x5A]\<rparr>)"
proof -
  let ?s' = "machine_zero\<lparr>bus := [PollTxwm 0, PollTxwm 1, WriteTxdata 0x5A,
                                       PollRxwm 0, PollRxwm 1, ReadRxdata 0x5A]\<rparr>"
  let ?sent = "access (WriteTxdata 0x5A) (access (PollTxwm 1) (polled PollTxwm 1 machine_zero))"
  have tx0: "\<forall>k<1. ip_txwm slow_loopback (polled PollTxwm k machine_zero) = 0"
    by (simp add: slow_loopback_def polled_def machine_zero_def)
  have tx1: "ip_txwm slow_loopback (polled PollTxwm 1 machine_zero) \<noteq> 0"
    by (simp add: slow_loopback_def polled_def machine_zero_def)
  have rx0: "\<forall>k<1. ip_rxwm slow_loopback (polled PollRxwm k ?sent) = 0"
    by (simp add: slow_loopback_def polled_def access_def machine_zero_def)
  have rx1: "ip_rxwm slow_loopback (polled PollRxwm 1 ?sent) \<noteq> 0"
    by (simp add: slow_loopback_def polled_def access_def machine_zero_def)
  have r: "0x5A = rxdata_data slow_loopback (access (PollRxwm 1) (polled PollRxwm 1 ?sent))"
    by (simp add: slow_loopback_def polled_def access_def machine_zero_def last_tx_def
        tx_bytes_append)
  have s': "?s' = access (ReadRxdata 0x5A) (access (PollRxwm 1) (polled PollRxwm 1 ?sent))"
    by (simp add: polled_def access_def machine_zero_def)
  have "\<exists>n m. (\<forall>k<n. ip_txwm slow_loopback (polled PollTxwm k machine_zero) = 0) \<and>
      ip_txwm slow_loopback (polled PollTxwm n machine_zero) \<noteq> 0 \<and>
      (\<forall>k<m. ip_rxwm slow_loopback (polled PollRxwm k
         (access (WriteTxdata 0x5A) (access (PollTxwm 1) (polled PollTxwm n machine_zero)))) = 0) \<and>
      ip_rxwm slow_loopback (polled PollRxwm m
         (access (WriteTxdata 0x5A) (access (PollTxwm 1) (polled PollTxwm n machine_zero)))) \<noteq> 0 \<and>
      0x5A = rxdata_data slow_loopback (access (PollRxwm 1) (polled PollRxwm m
         (access (WriteTxdata 0x5A) (access (PollTxwm 1) (polled PollTxwm n machine_zero))))) \<and>
      ?s' = access (ReadRxdata 0x5A) (access (PollRxwm 1) (polled PollRxwm m
         (access (WriteTxdata 0x5A) (access (PollTxwm 1) (polled PollTxwm n machine_zero)))))"
    by (intro exI [of _ 1] conjI tx0 tx1 rx0 rx1 r s')
  then have run: "spiSendReceive slow_loopback 0x5A machine_zero = Some (0x5A, ?s')"
    by (rule spiSendReceive_steps [of slow_loopback "0x5A" machine_zero "0x5A" ?s',
          THEN conjunct1, THEN iffD2])
  have f0: "ip_txwm slow_loopback machine_zero = 0"
    by (simp add: slow_loopback_def machine_zero_def)
  have f1: "ip_txwm slow_loopback (polled PollTxwm 1 machine_zero) = 1"
    by (simp add: slow_loopback_def polled_def machine_zero_def)
  have never: "\<not> (\<exists>n m. (\<forall>k<n. ip_txwm silent (polled PollTxwm k machine_zero) = 0) \<and>
      ip_txwm silent (polled PollTxwm n machine_zero) \<noteq> 0 \<and>
      (\<forall>k<m. ip_rxwm silent (polled PollRxwm k
         (access (WriteTxdata 0x5A) (access (PollTxwm 1) (polled PollTxwm n machine_zero)))) = 0) \<and>
      ip_rxwm silent (polled PollRxwm m
         (access (WriteTxdata 0x5A) (access (PollTxwm 1) (polled PollTxwm n machine_zero)))) \<noteq> 0 \<and>
      0x5A = rxdata_data silent (access (PollRxwm 1) (polled PollRxwm m
         (access (WriteTxdata 0x5A) (access (PollTxwm 1) (polled PollTxwm n machine_zero))))) \<and>
      ?s' = access (ReadRxdata 0x5A) (access (PollRxwm 1) (polled PollRxwm m
         (access (WriteTxdata 0x5A) (access (PollTxwm 1) (polled PollTxwm n machine_zero))))))"
    by (simp add: silent_def)
  have hang: "spiSendReceive silent 0x5A machine_zero \<noteq> Some (0x5A, ?s')"
    using never
    by (simp only: spiSendReceive_steps [of silent "0x5A" machine_zero "0x5A" ?s',
          THEN conjunct1] not_False_eq_True)
  from run f0 f1 hang show ?thesis by (intro conjI)
qed

text \<open>
  Claim C7. \<^verbatim>\<open>spiSendReceive\<close> has no timeout. It does not return exactly when \<^verbatim>\<open>ip.txwm\<close>
  reads 0 at every poll, or, after the poll that first reads it set and the write to
  \<^verbatim>\<open>txdata\<close>, \<^verbatim>\<open>ip.rxwm\<close> reads 0 at every poll. It returns exactly when \<^verbatim>\<open>ip.txwm\<close> is
  read set at some poll and, after the write, \<^verbatim>\<open>ip.rxwm\<close> is read set at some poll.
\<close>

theorem spiSendReceive_hangs_iff:
  "(spiSendReceive p send s = None \<longleftrightarrow>
     (\<forall>n. ip_txwm p (polled PollTxwm n s) = 0) \<or>
     (\<exists>n. (\<forall>k<n. ip_txwm p (polled PollTxwm k s) = 0) \<and>
          ip_txwm p (polled PollTxwm n s) \<noteq> 0 \<and>
          (\<forall>m. ip_rxwm p (polled PollRxwm m
              (access (WriteTxdata send) (access (PollTxwm 1) (polled PollTxwm n s)))) = 0))) \<and>
   ((\<exists>r s'. spiSendReceive p send s = Some (r, s')) \<longleftrightarrow>
     (\<exists>n. (\<forall>k<n. ip_txwm p (polled PollTxwm k s) = 0) \<and>
          ip_txwm p (polled PollTxwm n s) \<noteq> 0 \<and>
          (\<exists>m. ip_rxwm p (polled PollRxwm m
              (access (WriteTxdata send) (access (PollTxwm 1) (polled PollTxwm n s)))) \<noteq> 0)))"
proof (intro conjI)
  show "spiSendReceive p send s = None \<longleftrightarrow>
     (\<forall>n. ip_txwm p (polled PollTxwm n s) = 0) \<or>
     (\<exists>n. (\<forall>k<n. ip_txwm p (polled PollTxwm k s) = 0) \<and>
          ip_txwm p (polled PollTxwm n s) \<noteq> 0 \<and>
          (\<forall>m. ip_rxwm p (polled PollRxwm m
              (access (WriteTxdata send) (access (PollTxwm 1) (polled PollTxwm n s)))) = 0))"
    by (rule spiSendReceive_None_iff)
next
  show "(\<exists>r s'. spiSendReceive p send s = Some (r, s')) \<longleftrightarrow>
     (\<exists>n. (\<forall>k<n. ip_txwm p (polled PollTxwm k s) = 0) \<and>
          ip_txwm p (polled PollTxwm n s) \<noteq> 0 \<and>
          (\<exists>m. ip_rxwm p (polled PollRxwm m
              (access (WriteTxdata send) (access (PollTxwm 1) (polled PollTxwm n s)))) \<noteq> 0))"
    (is "?L \<longleftrightarrow> ?R")
  proof
    assume ?L
    then obtain r s' where "spiSendReceive p send s = Some (r, s')"
      by (elim exE)
    from spiSendReceive_Some_D [OF this] obtain n m where
      "\<forall>k<n. ip_txwm p (polled PollTxwm k s) = 0"
      "ip_txwm p (polled PollTxwm n s) \<noteq> 0"
      "ip_rxwm p (polled PollRxwm m
         (access (WriteTxdata send) (access (PollTxwm 1) (polled PollTxwm n s)))) \<noteq> 0"
      by (elim exE conjE)
    then show ?R
      by (intro exI [of _ n] conjI exI [of _ m])
  next
    assume ?R
    then obtain n m where tx: "\<forall>k<n. ip_txwm p (polled PollTxwm k s) = 0"
      "ip_txwm p (polled PollTxwm n s) \<noteq> 0"
      and rx: "ip_rxwm p (polled PollRxwm m
         (access (WriteTxdata send) (access (PollTxwm 1) (polled PollTxwm n s)))) \<noteq> 0"
      by (elim exE conjE)
    define rdy where "rdy = (\<lambda>m. ip_rxwm p (polled PollRxwm m
         (access (WriteTxdata send) (access (PollTxwm 1) (polled PollTxwm n s)))) \<noteq> 0)"
    define m0 where "m0 = (LEAST m. rdy m)"
    from rx have "rdy m" by (simp add: rdy_def)
    then have "rdy m0" unfolding m0_def by (rule LeastI)
    then have rx1: "ip_rxwm p (polled PollRxwm m0
         (access (WriteTxdata send) (access (PollTxwm 1) (polled PollTxwm n s)))) \<noteq> 0"
      by (simp add: rdy_def)
    have rx0: "\<forall>k<m0. ip_rxwm p (polled PollRxwm k
         (access (WriteTxdata send) (access (PollTxwm 1) (polled PollTxwm n s)))) = 0"
    proof (intro allI impI)
      fix k assume "k < m0"
      then have "\<not> rdy k" unfolding m0_def by (rule not_less_Least)
      then show "ip_rxwm p (polled PollRxwm k
         (access (WriteTxdata send) (access (PollTxwm 1) (polled PollTxwm n s)))) = 0"
        by (simp add: rdy_def)
    qed
    from spiSendReceive_returns [OF tx rx0 rx1] show ?L
      by (intro exI)
  qed
qed

theorem spiSendReceive_hangs_iff_witness:
  "spiSendReceive silent 0x5A machine_zero = None \<and>
   spiSendReceive mute 0x5A machine_zero = None \<and>
   spiSendReceive slow_loopback 0x5A machine_zero \<noteq> None"
proof -
  have "\<forall>n. ip_txwm silent (polled PollTxwm n machine_zero) = 0"
    by (simp add: silent_def)
  then have 1: "spiSendReceive silent 0x5A machine_zero = None"
    using spiSendReceive_hangs_iff [of silent "0x5A" machine_zero, THEN conjunct1] by simp
  have "(\<forall>k<(0::nat). ip_txwm mute (polled PollTxwm k machine_zero) = 0) \<and>
      ip_txwm mute (polled PollTxwm 0 machine_zero) \<noteq> 0 \<and>
      (\<forall>m. ip_rxwm mute (polled PollRxwm m
         (access (WriteTxdata 0x5A) (access (PollTxwm 1) (polled PollTxwm 0 machine_zero)))) = 0)"
    by (simp add: mute_def)
  then have "\<exists>n. (\<forall>k<n. ip_txwm mute (polled PollTxwm k machine_zero) = 0) \<and>
      ip_txwm mute (polled PollTxwm n machine_zero) \<noteq> 0 \<and>
      (\<forall>m. ip_rxwm mute (polled PollRxwm m
         (access (WriteTxdata 0x5A) (access (PollTxwm 1) (polled PollTxwm n machine_zero)))) = 0)"
    by (rule exI [of _ 0])
  then have 2: "spiSendReceive mute 0x5A machine_zero = None"
    using spiSendReceive_hangs_iff [of mute "0x5A" machine_zero, THEN conjunct1] by simp
  have tx: "(\<forall>k<(1::nat). ip_txwm slow_loopback (polled PollTxwm k machine_zero) = 0) \<and>
      ip_txwm slow_loopback (polled PollTxwm 1 machine_zero) \<noteq> 0"
    by (simp add: slow_loopback_def polled_def machine_zero_def)
  have rx: "ip_rxwm slow_loopback (polled PollRxwm 1
         (access (WriteTxdata 0x5A) (access (PollTxwm 1) (polled PollTxwm 1 machine_zero)))) \<noteq> 0"
    by (simp add: slow_loopback_def polled_def access_def machine_zero_def)
  from tx rx have "\<exists>n. (\<forall>k<n. ip_txwm slow_loopback (polled PollTxwm k machine_zero) = 0) \<and>
      ip_txwm slow_loopback (polled PollTxwm n machine_zero) \<noteq> 0 \<and>
      (\<exists>m. ip_rxwm slow_loopback (polled PollRxwm m
         (access (WriteTxdata 0x5A) (access (PollTxwm 1) (polled PollTxwm n machine_zero)))) \<noteq> 0)"
    by (intro exI [of _ 1] conjI) simp_all
  then have "\<exists>r s'. spiSendReceive slow_loopback 0x5A machine_zero = Some (r, s')"
    using spiSendReceive_hangs_iff [of slow_loopback "0x5A" machine_zero, THEN conjunct2] by simp
  then have 3: "spiSendReceive slow_loopback 0x5A machine_zero \<noteq> None"
    by (elim exE) simp
  from 1 2 3 show ?thesis by (intro conjI)
qed

text \<open>
  Claim C1. For every 16-bit \<open>x\<close>, \<^verbatim>\<open>spiSendReceive16\<close> is two calls of \<^verbatim>\<open>spiSendReceive\<close>, the
  first with \<^verbatim>\<open>(x >> 8) & 0xFF\<close> and the second with \<^verbatim>\<open>x & 0xFF\<close>; it returns when both
  return, and then its result is \<^verbatim>\<open>(r1 << 8) | r2\<close> for the bytes \<open>r1\<close> and \<open>r2\<close> they
  returned. A call that returns has written exactly these two bytes to \<^verbatim>\<open>txdata\<close> and read
  exactly \<open>r1\<close> and \<open>r2\<close> from \<^verbatim>\<open>rxdata\<close>.
\<close>

theorem spiSendReceive16_two_transfers:
  "spiSendReceive16 p x s =
     (case spiSendReceive p (ucast (drop_bit 8 x AND 0xFF)) (s\<lparr>spi := (spi s)\<lparr>csmode_mode := 2\<rparr>\<rparr>) of
        None \<Rightarrow> None
      | Some (r1, s1) \<Rightarrow>
          (case spiSendReceive p (ucast (x AND 0xFF)) s1 of
             None \<Rightarrow> None
           | Some (r2, s2) \<Rightarrow>
               Some (push_bit 8 (ucast r1) OR ucast r2, s2\<lparr>spi := (spi s2)\<lparr>csmode_mode := 0\<rparr>\<rparr>))) \<and>
   (\<forall>r s'. spiSendReceive16 p x s = Some (r, s') \<longrightarrow>
      (\<exists>r1 r2. tx_bytes (bus s') =
                 tx_bytes (bus s) @ [ucast (drop_bit 8 x AND 0xFF), ucast (x AND 0xFF)] \<and>
               rx_bytes (bus s') = rx_bytes (bus s) @ [r1, r2] \<and>
               r = push_bit 8 (ucast r1) OR ucast r2))"
proof (intro conjI allI impI)
  show "spiSendReceive16 p x s =
     (case spiSendReceive p (ucast (drop_bit 8 x AND 0xFF)) (s\<lparr>spi := (spi s)\<lparr>csmode_mode := 2\<rparr>\<rparr>) of
        None \<Rightarrow> None
      | Some (r1, s1) \<Rightarrow>
          (case spiSendReceive p (ucast (x AND 0xFF)) s1 of
             None \<Rightarrow> None
           | Some (r2, s2) \<Rightarrow>
               Some (push_bit 8 (ucast r1) OR ucast r2, s2\<lparr>spi := (spi s2)\<lparr>csmode_mode := 0\<rparr>\<rparr>)))"
    by (rule spiSendReceive16_unfold)
next
  fix r s'
  assume "spiSendReceive16 p x s = Some (r, s')"
  then show "\<exists>r1 r2. tx_bytes (bus s') =
                 tx_bytes (bus s) @ [ucast (drop_bit 8 x AND 0xFF), ucast (x AND 0xFF)] \<and>
               rx_bytes (bus s') = rx_bytes (bus s) @ [r1, r2] \<and>
               r = push_bit 8 (ucast r1) OR ucast r2"
    by (rule spiSendReceive16_effect(1))
qed

theorem spiSendReceive16_two_transfers_witness:
  "map_option fst (spiSendReceive16 loopback 0x1234 machine_zero) = Some 0x1234 \<and>
   map_option (tx_bytes \<circ> bus \<circ> snd) (spiSendReceive16 loopback 0x1234 machine_zero) =
     Some [0x12, 0x34]"
proof -
  obtain r s' where run: "spiSendReceive16 loopback 0x1234 machine_zero = Some (r, s')"
    by (simp add: spiSendReceive16_loopback)
  from spiSendReceive16_two_transfers [of loopback "0x1234" machine_zero, THEN conjunct2,
      rule_format, OF run]
  have tx: "tx_bytes (bus s') = tx_bytes (bus machine_zero) @
      [ucast (drop_bit 8 (0x1234 :: 16 word) AND 0xFF), ucast ((0x1234 :: 16 word) AND 0xFF)]"
    by (elim exE conjE)
  have val: "map_option fst (spiSendReceive16 loopback 0x1234 machine_zero) = Some 0x1234"
    using spiSendReceive16_two_transfers [of loopback "0x1234" machine_zero, THEN conjunct1]
    by (simp add: spiSendReceive_loopback)
  from run tx have "map_option (tx_bytes \<circ> bus \<circ> snd)
      (spiSendReceive16 loopback 0x1234 machine_zero) = Some [0x12, 0x34]"
    by (simp add: machine_zero_def)
  with val show ?thesis by (intro conjI)
qed

text \<open>
  Claim C9. When \<^verbatim>\<open>spiSendReceive16\<close> returns, \<^verbatim>\<open>csmode.mode\<close> is 0 (AUTO), also on the
  machine that \<^verbatim>\<open>spiInit\<close> left with \<^verbatim>\<open>csmode.mode\<close> 2 (HOLD); the function sets the mode
  to HOLD at entry, so it runs as if called with the mode HOLD.
\<close>

theorem spiSendReceive16_leaves_AUTO:
  "(\<exists>s1. spiInit clkdivide cpol cpha s = Inr s1 \<and> csmode_mode (spi s1) = 2 \<and>
      (\<forall>r s'. spiSendReceive16 p x s1 = Some (r, s') \<longrightarrow> csmode_mode (spi s') = 0)) \<and>
   (\<forall>r s'. spiSendReceive16 p x s = Some (r, s') \<longrightarrow> csmode_mode (spi s') = 0) \<and>
   spiSendReceive16 p x s = spiSendReceive16 p x (s\<lparr>spi := (spi s)\<lparr>csmode_mode := 2\<rparr>\<rparr>)"
proof -
  have auto: "csmode_mode (spi s') = 0" if "spiSendReceive16 p x t = Some (r, s')" for t r s'
    using spiSendReceive16_effect(2) [OF that] by simp
  obtain s1 where s1: "spiInit clkdivide cpol cpha s = Inr s1" "csmode_mode (spi s1) = 2"
    by (simp add: spiInit_def pinMode_def shl1_def Let_def)
  have 1: "\<exists>s1. spiInit clkdivide cpol cpha s = Inr s1 \<and> csmode_mode (spi s1) = 2 \<and>
      (\<forall>r s'. spiSendReceive16 p x s1 = Some (r, s') \<longrightarrow> csmode_mode (spi s') = 0)"
    using s1 auto by (intro exI [of _ s1]) simp
  have 2: "\<forall>r s'. spiSendReceive16 p x s = Some (r, s') \<longrightarrow> csmode_mode (spi s') = 0"
    using auto by simp
  have 3: "spiSendReceive16 p x s = spiSendReceive16 p x (s\<lparr>spi := (spi s)\<lparr>csmode_mode := 2\<rparr>\<rparr>)"
    by (simp add: spiSendReceive16_unfold)
  from 1 2 3 show ?thesis by (intro conjI)
qed

theorem spiSendReceive16_leaves_AUTO_witness:
  "map_sum id (csmode_mode \<circ> spi) (spiInit 10 1 1 machine_zero) = Inr 2 \<and>
   map_option (csmode_mode \<circ> spi \<circ> snd) (spiSendReceive16 loopback 0x8F00 machine_zero) = Some 0"
proof -
  obtain r s' where run: "spiSendReceive16 loopback 0x8F00 machine_zero = Some (r, s')"
    by (simp add: spiSendReceive16_loopback)
  from spiSendReceive16_leaves_AUTO [of 10 1 1 machine_zero loopback "0x8F00"]
  obtain s1 where init: "spiInit 10 1 1 machine_zero = Inr s1" "csmode_mode (spi s1) = 2"
    and auto: "\<forall>r s'. spiSendReceive16 loopback 0x8F00 machine_zero = Some (r, s') \<longrightarrow>
                 csmode_mode (spi s') = 0"
    by (elim exE conjE)
  from auto run have "csmode_mode (spi s') = 0" by simp
  with init run show ?thesis by simp
qed

text \<open>
  Claim C2, as the code has it. For every 8-bit address \<open>a\<close>, \<^verbatim>\<open>spiRead\<close> returns the low
  byte of the result of \<^verbatim>\<open>spiSendReceive16((a << 8) | 0x8000)\<close>. The top bit of the word sent
  is set whatever \<open>a\<close> is, and its low byte is 0: the bytes written to \<^verbatim>\<open>txdata\<close> are
  \<^verbatim>\<open>a | 0x80\<close> and \<^verbatim>\<open>0x00\<close>.
\<close>

theorem spiRead_word:
  "spiRead p a s =
     map_option (\<lambda>(r, s'). (ucast r, s')) (spiSendReceive16 p (push_bit 8 (ucast a) OR 0x8000) s) \<and>
   bit (push_bit 8 (ucast a) OR 0x8000 :: 16 word) 15 \<and>
   (\<forall>r s'. spiRead p a s = Some (r, s') \<longrightarrow>
      tx_bytes (bus s') = tx_bytes (bus s) @ [a OR 0x80, 0])"
proof -
  have 1: "spiRead p a s =
     map_option (\<lambda>(r, s'). (ucast r, s')) (spiSendReceive16 p (push_bit 8 (ucast a) OR 0x8000) s)"
    unfolding spiRead_def read_word_promoted
    by (simp split: option.splits)
  have 2: "bit (push_bit 8 (ucast a) OR 0x8000 :: 16 word) 15"
    by (rule read_word_top_bit)
  have 3: "\<forall>r s'. spiRead p a s = Some (r, s') \<longrightarrow>
      tx_bytes (bus s') = tx_bytes (bus s) @ [a OR 0x80, 0]"
  proof (intro allI impI)
    fix r s'
    assume "spiRead p a s = Some (r, s')"
    with 1 obtain r16 where
      "spiSendReceive16 p (push_bit 8 (ucast a) OR 0x8000) s = Some (r16, s')"
      by (cases "spiSendReceive16 p (push_bit 8 (ucast a) OR 0x8000) s") auto
    from spiSendReceive16_effect(1) [OF this]
    show "tx_bytes (bus s') = tx_bytes (bus s) @ [a OR 0x80, 0]"
      unfolding read_word_hi read_word_lo by (elim exE conjE)
  qed
  from 1 2 3 show ?thesis by (intro conjI)
qed

theorem spiRead_word_witness:
  "map_option fst (spiRead loopback 0x0F machine_zero) = Some 0 \<and>
   map_option (tx_bytes \<circ> bus \<circ> snd) (spiRead loopback 0x0F machine_zero) = Some [0x8F, 0x00]"
proof -
  have val: "map_option fst (spiRead loopback 0x0F machine_zero) = Some 0"
    using spiRead_word [of loopback "0x0F" machine_zero, THEN conjunct1]
    by (simp add: spiSendReceive16_loopback)
  then obtain r s' where run: "spiRead loopback 0x0F machine_zero = Some (r, s')"
    by (cases "spiRead loopback 0x0F machine_zero") auto
  from spiRead_word [of loopback "0x0F" machine_zero, THEN conjunct2, THEN conjunct2,
      rule_format, OF run]
  have "tx_bytes (bus s') = tx_bytes (bus machine_zero) @ [0x0F OR 0x80, 0]" .
  with run have "map_option (tx_bytes \<circ> bus \<circ> snd) (spiRead loopback 0x0F machine_zero) =
      Some [0x8F, 0x00]"
    by (simp add: machine_zero_def)
  with val show ?thesis by (intro conjI)
qed

text \<open>
  The claim as stated takes the word sent to be \<^verbatim>\<open>(a << 8) | 0x8000 | a\<close>. On the loopback
  peripheral and \<open>a = 1\<close> both the value returned and the bytes sent differ from those of
  \<^verbatim>\<open>spiRead\<close>.
\<close>

theorem spiRead_low_byte_counterexample:
  "map_option fst (spiRead loopback 1 machine_zero) \<noteq>
     map_option (ucast \<circ> fst) (spiSendReceive16 loopback (push_bit 8 1 OR 0x8000 OR 1) machine_zero) \<and>
   map_option (tx_bytes \<circ> bus \<circ> snd) (spiRead loopback 1 machine_zero) \<noteq>
     map_option (tx_bytes \<circ> bus \<circ> snd)
       (spiSendReceive16 loopback (push_bit 8 1 OR 0x8000 OR 1) machine_zero)"
  by (simp add: spiRead_def spiSendReceive16_loopback machine_zero_def)

text \<open>
  Claim C3, as the code has it. For every 8-bit address \<open>a\<close> and value \<open>v\<close>, \<^verbatim>\<open>spiWrite\<close>
  is \<^verbatim>\<open>spiSendReceive16((a << 8) | v)\<close> with the result dropped: the bytes written to
  \<^verbatim>\<open>txdata\<close> are \<open>a\<close> and \<open>v\<close>. The top bit of the word sent is the top bit of \<open>a\<close>; it is
  clear exactly when \<open>a\<close> is below \<^verbatim>\<open>0x80\<close>.
\<close>

theorem spiWrite_word:
  "spiWrite p a v s = map_option snd (spiSendReceive16 p (push_bit 8 (ucast a) OR ucast v) s) \<and>
   (bit (push_bit 8 (ucast a) OR ucast v :: 16 word) 15 \<longleftrightarrow> bit a 7) \<and>
   (\<forall>s'. spiWrite p a v s = Some s' \<longrightarrow> tx_bytes (bus s') = tx_bytes (bus s) @ [a, v])"
proof -
  have 1: "spiWrite p a v s = map_option snd (spiSendReceive16 p (push_bit 8 (ucast a) OR ucast v) s)"
    unfolding spiWrite_def compose_promoted
    by (simp split: option.splits)
  have 2: "bit (push_bit 8 (ucast a) OR ucast v :: 16 word) 15 \<longleftrightarrow> bit a 7"
    by (rule write_word_top_bit)
  have 3: "\<forall>s'. spiWrite p a v s = Some s' \<longrightarrow> tx_bytes (bus s') = tx_bytes (bus s) @ [a, v]"
  proof (intro allI impI)
    fix s'
    assume "spiWrite p a v s = Some s'"
    with 1 obtain r16 where
      "spiSendReceive16 p (push_bit 8 (ucast a) OR ucast v) s = Some (r16, s')"
      by (cases "spiSendReceive16 p (push_bit 8 (ucast a) OR ucast v) s") auto
    from spiSendReceive16_effect(1) [OF this]
    show "tx_bytes (bus s') = tx_bytes (bus s) @ [a, v]"
      unfolding write_word_hi write_word_lo by (elim exE conjE)
  qed
  from 1 2 3 show ?thesis by (intro conjI)
qed

theorem spiWrite_word_witness:
  "map_option (tx_bytes \<circ> bus) (spiWrite loopback 0x20 0x77 machine_zero) = Some [0x20, 0x77]"
proof -
  have "spiWrite loopback 0x20 0x77 machine_zero \<noteq> None"
    using spiWrite_word [of loopback "0x20" "0x77" machine_zero, THEN conjunct1]
    by (simp add: spiSendReceive16_loopback)
  then obtain s' where run: "spiWrite loopback 0x20 0x77 machine_zero = Some s'"
    by (cases "spiWrite loopback 0x20 0x77 machine_zero") auto
  from spiWrite_word [of loopback "0x20" "0x77" machine_zero, THEN conjunct2, THEN conjunct2,
      rule_format, OF run]
  have "tx_bytes (bus s') = tx_bytes (bus machine_zero) @ [0x20, 0x77]" .
  with run show ?thesis
    by (simp add: machine_zero_def)
qed

text \<open>
  The claim as stated has the top bit clear for every address. With the address
  \<^verbatim>\<open>0x80\<close> the first byte sent is \<^verbatim>\<open>0x80\<close>, whose top bit is set.
\<close>

theorem spiWrite_top_bit_counterexample:
  "map_option (tx_bytes \<circ> bus) (spiWrite loopback 0x80 0 machine_zero) = Some [0x80, 0x00] \<and>
   bit (0x80 :: 8 word) 7"
  by (simp add: spiWrite_def spiSendReceive16_loopback machine_zero_def)

end
